theory Spec2Isabelle
  imports Main "HOL-Library.AList"
begin

section \<open>The file organizer (file\_organizer.py)\<close>

text \<open>
  The organizer sorts the files of a directory tree into category folders, keeps a JSON
  ledger of the moves it made, and can undo them. The embedding below follows
  \<^verbatim>\<open>src/file_organizer.py\<close> function by function. Python strings are
  \<^typ>\<open>string\<close> (code points below 256), Python integers are \<^typ>\<open>int\<close>, a raised
  exception is a value of \<open>exn\<close>, and the operating system is an explicit \<open>world\<close>
  that every effectful function takes and returns. Calls of the ordinary logger
  (\<^verbatim>\<open>logger.info\<close>, \<^verbatim>\<open>logger.error\<close>, \<^verbatim>\<open>logger.warning\<close>) are left out: they decide
  nothing. The critical channel of \<^verbatim>\<open>alert_user\<close> is kept.
\<close>

subsection \<open>Exceptions and the world\<close>

text \<open>
  The exception classes the code tells apart (\<open>PermissionError\<close>, \<open>FileNotFoundError\<close>)
  and the others that the modelled calls can raise; \<open>EOFError\<close> is what \<^verbatim>\<open>input\<close>
  raises at the end of the input.
\<close>

datatype exn =
    PermissionError
  | FileNotFoundError
  | FileExistsError
  | OSError
  | ValueError
  | OverflowError
  | JSONDecodeError
  | EOFError

text \<open>
  The world is a POSIX file system seen through the calls the code makes. It holds the
  regular files (path to content) and, apart from them, the content of \<^verbatim>\<open>LOG_FILE\<close>
  when it exists (the log file lies outside the tree that is organized). A path is a
  name: two different strings are two different files. Directories are created on demand
  by the code and are not part of the world: that a directory which a call needs is
  missing is one of the faults below. The log file is ASCII text, one byte to a
  character, as \<^verbatim>\<open>json.dump\<close> writes it. The world records the rename and move system
  calls made so far and the messages sent on the critical channel.

  What else the operating system can answer is a fault, given with the world:
  \<open>faults w n\<close> is the error, if any, that the \<open>n\<close>-th rename or move call ends with (a
  file held open by another process, a read-only or missing directory, a failing disk), and
  \<open>copied w n\<close> tells whether that call, being a \<^verbatim>\<open>shutil.move\<close>, had copied the file to
  its destination before it failed;
  \<open>read_fault w p\<close>, \<open>mkdir_fault w p\<close> and \<open>remove_fault w p\<close> are the errors of
  reading the file \<open>p\<close>, of making the directory \<open>p\<close> and of removing the file \<open>p\<close>;
  \<open>log_fault w\<close> is the error of opening \<^verbatim>\<open>LOG_FILE\<close>.
\<close>

record world =
  files :: "string \<rightharpoonup> string"
  log_file :: "string option"
  calls :: "(string \<times> string) list"
  alerts :: "string list"
  faults :: "nat \<Rightarrow> exn option"
  copied :: "nat \<Rightarrow> bool"
  read_fault :: "string \<Rightarrow> exn option"
  mkdir_fault :: "string \<Rightarrow> exn option"
  remove_fault :: "string \<Rightarrow> exn option"
  log_fault :: "exn option"

text \<open>
  \<^verbatim>\<open>os.rename(src, dst)\<close>: the call is counted; an injected fault is raised; a missing
  source raises \<open>FileNotFoundError\<close>; otherwise the content moves to \<open>dst\<close>, replacing
  what was there.
\<close>

definition os_rename :: "string \<Rightarrow> string \<Rightarrow> world \<Rightarrow> exn option \<times> world" where
  "os_rename src dst w =
     (let w1 = w\<lparr>calls := calls w @ [(src, dst)]\<rparr> in
      case faults w (length (calls w)) of
        Some e \<Rightarrow> (Some e, w1)
      | None \<Rightarrow>
          (case files w src of
             None \<Rightarrow> (Some FileNotFoundError, w1)
           | Some c \<Rightarrow> (None, w1\<lparr>files := ((files w)(src := None))(dst \<mapsto> c)\<rparr>)))"

text \<open>
  \<^verbatim>\<open>shutil.move(src, dst)\<close> on regular files is a rename; where the rename is refused it
  copies the file and then removes the source. A call that succeeds has moved the file,
  as a rename does. A call that fails may have made the copy already (the removal of the
  source was refused): then the content is at \<open>dst\<close> as well, and still at \<open>src\<close>.
\<close>

definition shutil_move :: "string \<Rightarrow> string \<Rightarrow> world \<Rightarrow> exn option \<times> world" where
  "shutil_move src dst w =
     (case os_rename src dst w of
        (None, w1) \<Rightarrow> (None, w1)
      | (Some e, w1) \<Rightarrow>
          (case files w src of
             None \<Rightarrow> (Some e, w1)
           | Some c \<Rightarrow>
               if copied w (length (calls w)) then (Some e, w1\<lparr>files := (files w)(dst \<mapsto> c)\<rparr>)
               else (Some e, w1)))"

text \<open>
  \<^verbatim>\<open>time.sleep(delay)\<close>, for a whole number of seconds. The length is first converted
  to nanoseconds in a signed 64-bit integer: beyond 9223372036 seconds either way that
  raises \<open>OverflowError\<close>. A negative length then raises \<open>ValueError\<close>.
\<close>

definition time_sleep :: "int \<Rightarrow> exn option" where
  "time_sleep delay =
     (if delay < - 9223372036 \<or> 9223372036 < delay then Some OverflowError
      else if delay < 0 then Some ValueError
      else None)"

subsection \<open>Alerts and error classes (lines 68--91)\<close>

definition alert_user :: "string \<Rightarrow> world \<Rightarrow> world" where
  "alert_user message w = w\<lparr>alerts := alerts w @ [''ALERT: '' @ message]\<rparr>"

definition categorize_error :: "exn \<Rightarrow> string" where
  "categorize_error error =
     (if error = PermissionError then ''recoverable''
      else if error = FileNotFoundError then ''non_recoverable''
      else ''unknown'')"

subsection \<open>Moving with retries (lines 93--137)\<close>

text \<open>
  The \<^verbatim>\<open>while attempt < retries\<close> loop, entered with \<open>attempt\<close>. A successful rename
  returns \<open>True\<close>; a non-recoverable error returns \<open>False\<close> at once; any other error
  adds one to \<open>attempt\<close> and sleeps (an exception of \<^verbatim>\<open>time.sleep\<close> leaves the
  function). When the loop ends the alert is sent and \<open>False\<close> returned.
\<close>

function retry_loop ::
  "string \<Rightarrow> string \<Rightarrow> int \<Rightarrow> int \<Rightarrow> int \<Rightarrow> world \<Rightarrow> (exn + bool) \<times> world" where
  "retry_loop source destination retries delay attempt w =
     (if attempt < retries then
        (case os_rename source destination w of
           (None, w1) \<Rightarrow> (Inr True, w1)
         | (Some e, w1) \<Rightarrow>
             (if categorize_error e = ''recoverable'' then
                (case time_sleep delay of
                   Some e' \<Rightarrow> (Inl e', w1)
                 | None \<Rightarrow> retry_loop source destination retries delay (attempt + 1) w1)
              else if categorize_error e = ''non_recoverable'' then (Inr False, w1)
              else
                (case time_sleep delay of
                   Some e' \<Rightarrow> (Inl e', w1)
                 | None \<Rightarrow> retry_loop source destination retries delay (attempt + 1) w1)))
      else
        (Inr False,
         alert_user (''Failed to move '' @ source @ '' to '' @ destination @
                     '' after multiple attempts. Please check the log for details.'') w))"
  by pat_completeness auto
termination
  by (relation "measure (\<lambda>(s, d, retries, delay, attempt, w). nat (retries - attempt))") auto

definition retry_move_file ::
  "string \<Rightarrow> string \<Rightarrow> int \<Rightarrow> int \<Rightarrow> world \<Rightarrow> (exn + bool) \<times> world" where
  "retry_move_file source destination retries delay w =
     retry_loop source destination retries delay 0 w"

subsection \<open>Classification (lines 12--53, 284--301, 320--323)\<close>

definition EXTENSIONS :: "(string list \<times> string) list" where
  "EXTENSIONS =
     [([''.stl'', ''.obj'', ''.fbx'', ''.blend'', ''.dae'', ''.3ds'', ''.ply''], ''3DModels''),
      ([''.jpg'', ''.jpeg'', ''.png'', ''.gif'', ''.bmp'', ''.tiff'', ''.svg'', ''.heic'', ''.webp''],
       ''Images''),
      ([''.mp4'', ''.mkv'', ''.mov'', ''.avi'', ''.wmv'', ''.flv'', ''.webm'', ''.mpeg''], ''Videos''),
      ([''.mp3'', ''.wav'', ''.flac'', ''.aac'', ''.ogg'', ''.m4a'', ''.wma'', ''.aiff''], ''Audio''),
      ([''.doc'', ''.docx'', ''.pdf'', ''.txt'', ''.rtf'', ''.odt'', ''.tex'', ''.md''], ''Documents''),
      ([''.xlsx'', ''.xls'', ''.csv'', ''.ods''], ''Spreadsheets''),
      ([''.ppt'', ''.pptx'', ''.key'', ''.odp''], ''Presentations''),
      ([''.py'', ''.java'', ''.cpp'', ''.c'', ''.cs'', ''.js'', ''.ts'', ''.html'', ''.css'', ''.php'',
        ''.rb'', ''.swift'', ''.go'', ''.rs''], ''Code''),
      ([''.zip'', ''.rar'', ''.7z'', ''.tar'', ''.gz'', ''.bz2'', ''.xz''], ''Archives''),
      ([''.exe'', ''.msi'', ''.sh'', ''.bat'', ''.apk'', ''.dmg''], ''Executables''),
      ([''.ttf'', ''.otf'', ''.woff'', ''.woff2''], ''Fonts''),
      ([''.epub'', ''.mobi'', ''.azw'', ''.azw3''], ''Ebooks''),
      ([''.dwg'', ''.dxf''], ''CAD''),
      ([''.iso'', ''.img''], ''DiskImages''),
      ([''.sln'', ''.log'', ''.cfg'', ''.ini'', ''.bak''], ''Others'')]"

text \<open>The dictionary is walked in insertion order; the first group holding the extension wins.\<close>

fun get_folder_name :: "string \<Rightarrow> (string list \<times> string) list \<Rightarrow> string" where
  "get_folder_name extension [] = ''Others''"
| "get_folder_name extension ((ext_group, folder_name) # rest) =
     (if List.member ext_group extension then folder_name
      else get_folder_name extension rest)"

text \<open>
  Line 323: \<^verbatim>\<open>custom_rules.get(file_extension) or get_folder_name(file_extension, EXTENSIONS)\<close>.
  Python's \<^verbatim>\<open>or\<close> takes the right operand when the left one is falsy: a missing rule
  (\<^verbatim>\<open>None\<close>) and also the empty string.
\<close>

definition target_folder_name :: "string \<Rightarrow> (string \<rightharpoonup> string) \<Rightarrow> string" where
  "target_folder_name file_extension custom_rules =
     (case custom_rules file_extension of
        Some c \<Rightarrow> if c \<noteq> [] then c else get_folder_name file_extension EXTENSIONS
      | None \<Rightarrow> get_folder_name file_extension EXTENSIONS)"

subsection \<open>Paths and strings (the parts of \<^verbatim>\<open>os.path\<close> and \<^verbatim>\<open>str\<close> the code calls)\<close>

abbreviation (input) SLASH :: char where "SLASH \<equiv> CHR 0x2F"
abbreviation (input) DOT :: char where "DOT \<equiv> CHR 0x2E"
abbreviation (input) DQUOTE :: char where "DQUOTE \<equiv> CHR 0x22"
abbreviation (input) BACKSLASH :: char where "BACKSLASH \<equiv> CHR 0x5C"
abbreviation (input) NEWLINE :: char where "NEWLINE \<equiv> CHR 0x0A"

text \<open>\<^verbatim>\<open>os.path.join(a, b)\<close> of \<^verbatim>\<open>posixpath\<close>, for two components.\<close>

definition os_path_join :: "string \<Rightarrow> string \<Rightarrow> string" where
  "os_path_join a b =
     (if b \<noteq> [] \<and> hd b = SLASH then b
      else if a = [] \<or> last a = SLASH then a @ b
      else a @ [SLASH] @ b)"

text \<open>\<^verbatim>\<open>os.path.basename\<close>: what follows the last slash.\<close>

definition os_path_basename :: "string \<Rightarrow> string" where
  "os_path_basename p = rev (takeWhile (\<lambda>c. c \<noteq> SLASH) (rev p))"

text \<open>
  \<^verbatim>\<open>os.path.dirname\<close>: the head up to the last slash, with its trailing slashes removed
  unless it consists of slashes only.
\<close>

definition os_path_dirname :: "string \<Rightarrow> string" where
  "os_path_dirname p =
     (let head = rev (dropWhile (\<lambda>c. c \<noteq> SLASH) (rev p)) in
      if head \<noteq> [] \<and> \<not> list_all (\<lambda>c. c = SLASH) head
      then rev (dropWhile (\<lambda>c. c = SLASH) (rev head))
      else head)"

text \<open>
  \<^verbatim>\<open>os.path.splitext(p)[1]\<close>: the extension starts at the last dot of the last
  component, unless only dots stand before it there.
\<close>

definition splitext_ext :: "string \<Rightarrow> string" where
  "splitext_ext p =
     (let r = rev (os_path_basename p);
          after = takeWhile (\<lambda>c. c \<noteq> DOT) r;
          upto = dropWhile (\<lambda>c. c \<noteq> DOT) r
      in if upto = [] then []
         else if list_all (\<lambda>c. c = DOT) (tl upto) then []
         else DOT # rev after)"

text \<open>\<^verbatim>\<open>str.lower\<close> on code points below 256.\<close>

definition lower_char :: "char \<Rightarrow> char" where
  "lower_char c =
     (let n = (of_char c :: nat) in
      if (65 \<le> n \<and> n \<le> 90) \<or> (192 \<le> n \<and> n \<le> 222 \<and> n \<noteq> 215)
      then char_of (n + 32) else c)"

definition lower :: "string \<Rightarrow> string" where
  "lower s = map lower_char s"

text \<open>\<^verbatim>\<open>str.strip\<close>: Python's whitespace among the code points below 256.\<close>

definition is_space :: "char \<Rightarrow> bool" where
  "is_space c =
     (let n = (of_char c :: nat) in
      (9 \<le> n \<and> n \<le> 13) \<or> (28 \<le> n \<and> n \<le> 32) \<or> n = 133 \<or> n = 160)"

definition strip :: "string \<Rightarrow> string" where
  "strip s = rev (dropWhile is_space (rev (dropWhile is_space s)))"

text \<open>\<^verbatim>\<open>q in s\<close> on strings: \<open>q\<close> occurs in \<open>s\<close> as a contiguous piece.\<close>

fun is_substring :: "string \<Rightarrow> string \<Rightarrow> bool" where
  "is_substring q [] = (q = [])"
| "is_substring q (c # cs) = (take (length q) (c # cs) = q \<or> is_substring q cs)"

text \<open>
  \<^verbatim>\<open>os.makedirs(path, exist_ok=True)\<close>: besides a fault of the world, it fails on the
  empty path and where a regular file has the name.
\<close>

definition os_makedirs :: "string \<Rightarrow> world \<Rightarrow> exn option" where
  "os_makedirs path w =
     (case mkdir_fault w path of
        Some e \<Rightarrow> Some e
      | None \<Rightarrow>
          if path = [] then Some FileNotFoundError
          else if files w path \<noteq> None then Some FileExistsError
          else None)"

text \<open>\<^verbatim>\<open>os.remove(path)\<close>.\<close>

definition os_remove :: "string \<Rightarrow> world \<Rightarrow> exn option \<times> world" where
  "os_remove path w =
     (case remove_fault w path of
        Some e \<Rightarrow> (Some e, w)
      | None \<Rightarrow>
          if files w path = None then (Some FileNotFoundError, w)
          else (None, w\<lparr>files := (files w)(path := None)\<rparr>))"

subsection \<open>JSON as the ledger uses it\<close>

text \<open>
  A ledger is a Python dictionary from strings to strings: an association list with
  distinct keys, in insertion order. \<^verbatim>\<open>data.update({k: v})\<close> is \<^const>\<open>AList.update\<close>:
  an existing key keeps its place, a new one goes last.

  \<^verbatim>\<open>json.dump\<close> (with \<^verbatim>\<open>ensure_ascii\<close>, the default): a string is quoted, with the quote,
  the backslash and everything outside the printable ASCII range escaped.
\<close>

type_synonym dict = "(string \<times> string) list"

definition hexdigit :: "nat \<Rightarrow> char" where
  "hexdigit d = (if d < 10 then char_of (48 + d) else char_of (87 + d))"

definition escape_char :: "char \<Rightarrow> string" where
  "escape_char c =
     (let n = (of_char c :: nat) in
      if c = DQUOTE then [BACKSLASH, DQUOTE]
      else if c = BACKSLASH then [BACKSLASH, BACKSLASH]
      else if n = 8 then [BACKSLASH, CHR ''b'']
      else if n = 12 then [BACKSLASH, CHR ''f'']
      else if n = 10 then [BACKSLASH, CHR ''n'']
      else if n = 13 then [BACKSLASH, CHR ''r'']
      else if n = 9 then [BACKSLASH, CHR ''t'']
      else if n < 32 \<or> 126 < n
        then [BACKSLASH, CHR ''u'', CHR ''0'', CHR ''0'', hexdigit (n div 16), hexdigit (n mod 16)]
      else [c])"

definition encode_string :: "string \<Rightarrow> string" where
  "encode_string s = DQUOTE # concat (map escape_char s) @ [DQUOTE]"

text \<open>The items, joined by the item separator (a comma, and with an indent a new line).\<close>

fun dump_items :: "string \<Rightarrow> dict \<Rightarrow> string" where
  "dump_items sep [] = []"
| "dump_items sep [(k, v)] = encode_string k @ '': '' @ encode_string v"
| "dump_items sep ((k, v) # kv # rest) =
     encode_string k @ '': '' @ encode_string v @ sep @ dump_items sep (kv # rest)"

text \<open>
  \<^verbatim>\<open>json.dump(data, f, indent=indent)\<close>, as the text written: \<open>None\<close> is the compact
  form, \<open>Some n\<close> puts each item on a line of its own behind \<open>n\<close> spaces.
\<close>

definition json_dump :: "nat option \<Rightarrow> dict \<Rightarrow> string" where
  "json_dump indent data =
     (if data = [] then ''{}''
      else case indent of
        None \<Rightarrow> ''{'' @ dump_items '', '' data @ ''}''
      | Some n \<Rightarrow>
          ''{'' @ [NEWLINE] @ replicate n (CHR '' '') @
          dump_items ('','' @ [NEWLINE] @ replicate n (CHR '' '')) data @ [NEWLINE] @ ''}'')"

text \<open>
  \<^verbatim>\<open>json.load\<close>, for the documents a ledger can be: an object whose values are strings.
  Any other document (a value that is not a string, a code point of 256 or more) is
  outside this model and reported as a decoding error, as is every malformed text.
\<close>

definition hexval :: "char \<Rightarrow> nat option" where
  "hexval c =
     (let n = (of_char c :: nat) in
      if 48 \<le> n \<and> n \<le> 57 then Some (n - 48)
      else if 97 \<le> n \<and> n \<le> 102 then Some (n - 87)
      else if 65 \<le> n \<and> n \<le> 70 then Some (n - 55)
      else None)"

definition unescape :: "char \<Rightarrow> char option" where
  "unescape e =
     (if e = DQUOTE then Some DQUOTE
      else if e = BACKSLASH then Some BACKSLASH
      else if e = SLASH then Some SLASH
      else if e = CHR ''b'' then Some (CHR 0x08)
      else if e = CHR ''f'' then Some (CHR 0x0C)
      else if e = CHR ''n'' then Some (CHR 0x0A)
      else if e = CHR ''r'' then Some (CHR 0x0D)
      else if e = CHR ''t'' then Some (CHR 0x09)
      else None)"

definition decode_u :: "char \<Rightarrow> char \<Rightarrow> char \<Rightarrow> char \<Rightarrow> char option" where
  "decode_u a b c d =
     (case (hexval a, hexval b, hexval c, hexval d) of
        (Some x, Some y, Some z, Some t) \<Rightarrow>
          if x = 0 \<and> y = 0 then Some (char_of (16 * z + t)) else None
      | _ \<Rightarrow> None)"

text \<open>
  The scan of a string, from behind its opening quote: the decoded string and the text
  behind the closing quote. A raw control character is an error.
\<close>

fun scanstring :: "string \<Rightarrow> (string \<times> string) option" where
  "scanstring [] = None"
| "scanstring (c # cs) =
     (if c = DQUOTE then Some ([], cs)
      else if c = BACKSLASH then
        (case cs of
           [] \<Rightarrow> None
         | e # cs1 \<Rightarrow>
             if e = CHR ''u'' then
               (case cs1 of
                  h1 # h2 # h3 # h4 # cs2 \<Rightarrow>
                    (case decode_u h1 h2 h3 h4 of
                       None \<Rightarrow> None
                     | Some d \<Rightarrow>
                         (case scanstring cs2 of
                            None \<Rightarrow> None
                          | Some (s, r) \<Rightarrow> Some (d # s, r)))
                | _ \<Rightarrow> None)
             else
               (case unescape e of
                  None \<Rightarrow> None
                | Some d \<Rightarrow>
                    (case scanstring cs1 of
                       None \<Rightarrow> None
                     | Some (s, r) \<Rightarrow> Some (d # s, r))))
      else if (of_char c :: nat) < 32 then None
      else
        (case scanstring cs of
           None \<Rightarrow> None
         | Some (s, r) \<Rightarrow> Some (c # s, r)))"

definition is_ws :: "char \<Rightarrow> bool" where
  "is_ws c = (c = CHR '' '' \<or> c = CHR 0x09 \<or> c = CHR 0x0A \<or> c = CHR 0x0D)"

definition skip_ws :: "string \<Rightarrow> string" where
  "skip_ws s = dropWhile is_ws s"

lemma scanstring_shorter: "scanstring s = Some (x, r) \<Longrightarrow> length r < length s"
proof (induction s arbitrary: x r rule: scanstring.induct)
  case 1
  then show ?case by simp
next
  case (2 c cs)
  then show ?case
    by (fastforce split: if_splits list.splits option.splits)
qed

lemma skip_ws_length: "length (skip_ws s) \<le> length s"
  by (simp add: skip_ws_def length_dropWhile_le)

text \<open>
  The members of an object, from the opening quote of a key: key, colon, string value,
  then a comma and the next member, or the closing brace. A repeated key keeps its first
  place and its last value, as \<^verbatim>\<open>dict\<close> does.
\<close>

function parse_members :: "dict \<Rightarrow> string \<Rightarrow> (dict \<times> string) option" where
  "parse_members acc s =
     (case s of
        [] \<Rightarrow> None
      | c # s1 \<Rightarrow>
          if c \<noteq> DQUOTE then None
          else
            (case scanstring s1 of
               None \<Rightarrow> None
             | Some (k, s2) \<Rightarrow>
                 (case skip_ws s2 of
                    [] \<Rightarrow> None
                  | c2 # s3 \<Rightarrow>
                      if c2 \<noteq> CHR '':'' then None
                      else
                        (case skip_ws s3 of
                           [] \<Rightarrow> None
                         | c3 # s4 \<Rightarrow>
                             if c3 \<noteq> DQUOTE then None
                             else
                               (case scanstring s4 of
                                  None \<Rightarrow> None
                                | Some (v, s5) \<Rightarrow>
                                    (case skip_ws s5 of
                                       [] \<Rightarrow> None
                                     | c5 # s6 \<Rightarrow>
                                         if c5 = CHR '','' then
                                           parse_members (AList.update k v acc) (skip_ws s6)
                                         else if c5 = CHR ''}'' then
                                           Some (AList.update k v acc, s6)
                                         else None))))))"
  by pat_completeness auto
termination
  apply (relation "measure (\<lambda>(acc, s). length s)")
   apply simp
  apply clarsimp
  subgoal for s1 k s2 s3 s4 v s5 s6
    using scanstring_shorter [of s1 k s2] skip_ws_length [of s2] skip_ws_length [of s3]
      scanstring_shorter [of s4 v s5] skip_ws_length [of s5] skip_ws_length [of s6]
    by simp
  done

definition json_load :: "string \<Rightarrow> exn + dict" where
  "json_load text =
     (case skip_ws text of
        [] \<Rightarrow> Inl JSONDecodeError
      | c # s1 \<Rightarrow>
          if c \<noteq> CHR ''{'' then Inl JSONDecodeError
          else
            (case skip_ws s1 of
               [] \<Rightarrow> Inl JSONDecodeError
             | c1 # s2 \<Rightarrow>
                 if c1 = CHR ''}'' then
                   (if skip_ws s2 = [] then Inr [] else Inl JSONDecodeError)
                 else
                   (case parse_members [] (c1 # s2) of
                      None \<Rightarrow> Inl JSONDecodeError
                    | Some (data, s3) \<Rightarrow>
                        if skip_ws s3 = [] then Inr data else Inl JSONDecodeError)))"

subsection \<open>The movement ledger (lines 139, 186--247)\<close>

text \<open>
  Writing \<open>text\<close> from position 0 into a file opened with \<^verbatim>\<open>"r+"\<close>: the bytes of the
  old content behind the written ones stay, since nothing truncates the file.
\<close>

definition write_at_start :: "string \<Rightarrow> string \<Rightarrow> string" where
  "write_at_start text content = text @ drop (length text) content"

text \<open>
  \<^verbatim>\<open>log_movement(src, dest)\<close>: a missing log file is created holding \<^verbatim>\<open>{}\<close>; the file is
  then read whole and decoded, \<^verbatim>\<open>{src: dest}\<close> is merged in, and after \<^verbatim>\<open>seek(0)\<close> the
  new document is written with an indent of 4. An error of opening the file or of
  decoding it leaves the function.
\<close>

definition log_movement :: "string \<Rightarrow> string \<Rightarrow> world \<Rightarrow> exn option \<times> world" where
  "log_movement src dest w =
     (let movement_data = [(src, dest)] in
      case log_fault w of
        Some e \<Rightarrow> (Some e, w)
      | None \<Rightarrow>
          (let w1 = (if log_file w = None then w\<lparr>log_file := Some (json_dump None [])\<rparr> else w);
               content = (case log_file w1 of None \<Rightarrow> [] | Some c \<Rightarrow> c)
           in case json_load content of
                Inl e \<Rightarrow> (Some e, w1)
              | Inr data \<Rightarrow>
                  (let data1 = fold (\<lambda>(k, v). AList.update k v) movement_data data
                   in (None,
                       w1\<lparr>log_file :=
                            Some (write_at_start (json_dump (Some 4) data1) content)\<rparr>))))"

text \<open>
  One turn of the loop of \<^verbatim>\<open>undo_selected_moves\<close>: the directory of \<open>src\<close> is made,
  then \<open>dest\<close> is moved to \<open>src\<close>; an exception of either is logged and the loop goes on.
\<close>

definition move_back :: "string \<Rightarrow> string \<Rightarrow> world \<Rightarrow> world" where
  "move_back dest src w =
     (case os_makedirs (os_path_dirname src) w of
        Some e \<Rightarrow> w
      | None \<Rightarrow> snd (shutil_move dest src w))"

text \<open>
  \<^verbatim>\<open>undo_selected_moves()\<close>; \<open>typed\<close> holds the lines the user types, of which the
  prompt reads the first. Each item of the ledger is read as \<^verbatim>\<open>(dest, src)\<close>: the key as
  the place the file is at now, the value as the place it came from. The items whose
  value contains the input are moved back and dropped from the ledger, which is written
  anew (mode \<^verbatim>\<open>"w"\<close>).
\<close>

definition undo_selected_moves :: "string list \<Rightarrow> world \<Rightarrow> exn option \<times> world" where
  "undo_selected_moves typed w =
     (case log_file w of
        None \<Rightarrow> (None, w)
      | Some content \<Rightarrow>
          (case log_fault w of
             Some e \<Rightarrow> (Some e, w)
           | None \<Rightarrow>
               (case json_load content of
                  Inl e \<Rightarrow> (Some e, w)
                | Inr data \<Rightarrow>
                    (case typed of
                       [] \<Rightarrow> (Some EOFError, w)
                     | line # later \<Rightarrow>
                         (let directory_input = strip line;
                              matching_entries =
                                filter (\<lambda>(dest, src). is_substring directory_input src) data
                          in if matching_entries = [] then (None, w)
                             else
                               (let w1 = fold (\<lambda>(dest, src). move_back dest src)
                                           matching_entries w;
                                    remaining_data =
                                      filter (\<lambda>(dest, src).
                                                \<not> List.member (map fst matching_entries) dest) data
                                in (None,
                                    w1\<lparr>log_file := Some (json_dump (Some 4) remaining_data)\<rparr>)))))))"

subsection \<open>Hashing (lines 263--281)\<close>

text \<open>
  The hasher is the bytes fed to it so far; \<open>md5\<close>, the digest function of
  \<^verbatim>\<open>hashlib\<close>, is a parameter. The loop reads chunks until an empty one comes.
\<close>

function read_chunks :: "nat \<Rightarrow> string \<Rightarrow> string \<Rightarrow> string" where
  "read_chunks chunk_size remaining hasher =
     (let chunk = take chunk_size remaining in
      if chunk \<noteq> [] then read_chunks chunk_size (drop chunk_size remaining) (hasher @ chunk)
      else hasher)"
  by pat_completeness auto
termination
  by (relation "measure (\<lambda>(n, remaining, h). length remaining)") (auto simp: Let_def)

text \<open>
  \<^verbatim>\<open>get_file_hash(file_path)\<close>: an error of opening or reading the file is raised
  (Python's \<^verbatim>\<open>IOError\<close> is \<open>OSError\<close>); a missing file raises \<open>FileNotFoundError\<close>.
\<close>

definition get_file_hash :: "(string \<Rightarrow> string) \<Rightarrow> string \<Rightarrow> world \<Rightarrow> exn + string" where
  "get_file_hash md5 file_path w =
     (case read_fault w file_path of
        Some e \<Rightarrow> Inl e
      | None \<Rightarrow>
          (case files w file_path of
             None \<Rightarrow> Inl FileNotFoundError
           | Some content \<Rightarrow> Inr (md5 (read_chunks 8192 content []))))"

subsection \<open>Duplicates (lines 364--421)\<close>

text \<open>\<^verbatim>\<open>delete_files\<close>: every duplicate is removed; an exception is logged.\<close>

definition delete_files :: "(string \<times> string) list \<Rightarrow> world \<Rightarrow> world" where
  "delete_files duplicates w = fold (\<lambda>(dup, original) w. snd (os_remove dup w)) duplicates w"

text \<open>\<^verbatim>\<open>backup_duplicates\<close>: every duplicate is renamed into the backup directory.\<close>

definition backup_duplicates ::
  "(string \<times> string) list \<Rightarrow> string \<Rightarrow> world \<Rightarrow> exn option \<times> world" where
  "backup_duplicates duplicates backup_dir w =
     (case os_makedirs backup_dir w of
        Some e \<Rightarrow> (Some e, w)
      | None \<Rightarrow>
          (None,
           fold (\<lambda>(dup, original) w.
                   snd (os_rename dup (os_path_join backup_dir (os_path_basename dup)) w))
             duplicates w))"

text \<open>
  The prompt loop: the lines the user types are read until one is, stripped and in lower
  case, \<^verbatim>\<open>yes\<close>, \<^verbatim>\<open>no\<close> or \<^verbatim>\<open>backup\<close>; at the end of the input \<^verbatim>\<open>input\<close> raises.
\<close>

fun read_choice :: "string list \<Rightarrow> exn + string" where
  "read_choice [] = Inl EOFError"
| "read_choice (line # lines) =
     (let choice = lower (strip line) in
      if choice = ''yes'' \<or> choice = ''no'' \<or> choice = ''backup'' then Inr choice
      else read_choice lines)"

definition handle_duplicates ::
  "(string \<times> string) list \<Rightarrow> string list \<Rightarrow> world \<Rightarrow> exn option \<times> world" where
  "handle_duplicates duplicates typed w =
     (if duplicates = [] then (None, w)
      else case read_choice typed of
        Inl e \<Rightarrow> (Some e, w)
      | Inr choice \<Rightarrow>
          if choice = ''yes'' then (None, delete_files duplicates w)
          else if choice = ''backup'' then backup_duplicates duplicates ''backup'' w
          else (None, w))"

subsection \<open>The organize pass (lines 304--361)\<close>

text \<open>
  The \<^verbatim>\<open>try\<close> block of lines 338--345: one \<^verbatim>\<open>shutil.move\<close>, and after a move that
  succeeded \<^verbatim>\<open>log_movement(file_path, new_path)\<close>. An exception of either is logged and
  the pass goes on.
\<close>

definition move_and_log :: "string \<Rightarrow> string \<Rightarrow> world \<Rightarrow> world" where
  "move_and_log file_path new_path w =
     (case shutil_move file_path new_path w of
        (Some e, w1) \<Rightarrow> w1
      | (None, w1) \<Rightarrow> snd (log_movement file_path new_path w1))"

text \<open>
  The loop over the files that \<^verbatim>\<open>os.walk\<close> yields, as pairs of the directory and the file
  name, in the order of the walk (a file that the walk meets again, in a directory it
  comes to after the move, is in the list again). \<open>hash_map\<close> maps a digest to the
  first path seen with it, \<open>duplicates\<close> collects the pairs of a later path and that
  first path. An exception of \<^verbatim>\<open>os.makedirs\<close> or \<^verbatim>\<open>get_file_hash\<close> is caught nowhere and
  ends the loop.
\<close>

fun scan_files ::
  "(string \<Rightarrow> string) \<Rightarrow> string \<Rightarrow> (string \<rightharpoonup> string) \<Rightarrow> (string \<times> string) list \<Rightarrow>
   (string \<rightharpoonup> string) \<Rightarrow> (string \<times> string) list \<Rightarrow> world \<Rightarrow>
   (exn + (string \<rightharpoonup> string) \<times> (string \<times> string) list) \<times> world" where
  "scan_files md5 directory custom_rules [] hash_map duplicates w =
     (Inr (hash_map, duplicates), w)"
| "scan_files md5 directory custom_rules ((root, filename) # rest) hash_map duplicates w =
     (let file_path = os_path_join root filename;
          file_extension = lower (splitext_ext filename);
          folder_name = target_folder_name file_extension custom_rules;
          target_folder = os_path_join directory folder_name
      in case os_makedirs target_folder w of
           Some e \<Rightarrow> (Inl e, w)
         | None \<Rightarrow>
             (case get_file_hash md5 file_path w of
                Inl e \<Rightarrow> (Inl e, w)
              | Inr file_hash \<Rightarrow>
                  (case hash_map file_hash of
                     Some original \<Rightarrow>
                       scan_files md5 directory custom_rules rest hash_map
                         (duplicates @ [(file_path, original)]) w
                   | None \<Rightarrow>
                       (let new_path = os_path_join target_folder filename
                        in scan_files md5 directory custom_rules rest
                             (hash_map(file_hash \<mapsto> file_path)) duplicates
                             (move_and_log file_path new_path w)))))"

text \<open>
  \<^verbatim>\<open>organize_files(directory)\<close>: \<open>custom_rules\<close> is what \<^verbatim>\<open>load_custom_rules\<close> returned
  (extensions with the folder names that \<^verbatim>\<open>add_custom_rule\<close> stored),
  \<open>walk\<close> the files in the order of \<^verbatim>\<open>os.walk\<close>, \<open>typed\<close> the lines typed at the
  duplicate prompt. The removal of empty directories at the end changes no file.
\<close>

definition organize_files ::
  "(string \<Rightarrow> string) \<Rightarrow> string \<Rightarrow> (string \<rightharpoonup> string) \<Rightarrow> (string \<times> string) list \<Rightarrow>
   string list \<Rightarrow> world \<Rightarrow> exn option \<times> world" where
  "organize_files md5 directory custom_rules walk typed w =
     (case scan_files md5 directory custom_rules walk Map.empty [] w of
        (Inl e, w1) \<Rightarrow> (Some e, w1)
      | (Inr (hash_map, duplicates), w1) \<Rightarrow> handle_duplicates duplicates typed w1)"

subsection \<open>Example worlds\<close>

text \<open>
  A quiet world with no files, and one where every rename is denied. In the examples the
  digest of a content is the content itself.
\<close>

definition quiet_world :: world where
  "quiet_world =
     \<lparr>files = Map.empty, log_file = None, calls = [], alerts = [],
      faults = (\<lambda>n. None), copied = (\<lambda>n. False), read_fault = (\<lambda>p. None),
      mkdir_fault = (\<lambda>p. None),
      remove_fault = (\<lambda>p. None), log_fault = None\<rparr>"


definition plain_digest :: "string \<Rightarrow> string" where
  "plain_digest content = content"

text \<open>The directory \<^verbatim>\<open>d\<close> with one picture, and what a pass over it leaves.\<close>

definition photo_world :: world where
  "photo_world = quiet_world\<lparr>files := [''d/a.jpg'' \<mapsto> ''AAA'']\<rparr>"

definition organized_world :: world where
  "organized_world =
     snd (organize_files plain_digest ''d'' Map.empty [(''d'', ''a.jpg'')] [] photo_world)"

text \<open>The same directory while another process holds the picture during the first move call.\<close>

definition busy_world :: world where
  "busy_world = photo_world\<lparr>faults := (\<lambda>n. if n = 0 then Some PermissionError else None)\<rparr>"

text \<open>Three files, the second of which cannot be read.\<close>

definition unreadable_world :: world where
  "unreadable_world =
     quiet_world\<lparr>files := [''d/b.txt'' \<mapsto> ''BBB'', ''d/a.jpg'' \<mapsto> ''AAA'', ''d/c.jpg'' \<mapsto> ''CCC''],
       read_fault := (\<lambda>p. if p = ''d/a.jpg'' then Some OSError else None)\<rparr>"


text \<open>
  A ledger as an earlier pass wrote it, when \<^verbatim>\<open>d/a.txt\<close> went to \<^verbatim>\<open>d/Documents\<close>; now a new
  file \<^verbatim>\<open>d/a.txt\<close> has been moved to \<^verbatim>\<open>d/T\<close> under a custom rule.
\<close>

definition relog_world :: world where
  "relog_world =
     quiet_world\<lparr>log_file := Some (json_dump (Some 4) [(''d/a.txt'', ''d/Documents/a.txt'')])\<rparr>"

section \<open>Properties\<close>

declare retry_loop.simps [simp del]

subsection \<open>Decoding what was encoded\<close>

declare parse_members.simps [simp del]

lemma of_char_less_256: "(of_char c :: nat) < 256"
proof -
  have "(of_char c :: nat) mod 256 = of_char c" by simp
  then show ?thesis by (metis mod_less_divisor zero_less_numeral)
qed

lemma hexdigit_code:
  "d < 16 \<Longrightarrow> (of_char (hexdigit d) :: nat) = (if d < 10 then 48 + d else 87 + d)"
  by (simp add: hexdigit_def)

lemma hexval_hexdigit: "d < 16 \<Longrightarrow> hexval (hexdigit d) = Some d"
  by (simp add: hexval_def hexdigit_code Let_def)

lemma char_eq_code: "(c = d) = ((of_char c :: nat) = of_char d)"
  by simp

lemma decode_u_escape:
  "decode_u (CHR ''0'') (CHR ''0'') (hexdigit (of_char c div 16)) (hexdigit (of_char c mod 16))
     = Some c"
proof -
  let ?n = "of_char c :: nat"
  have "?n div 16 < 16" using of_char_less_256 [of c] by arith
  moreover have "?n mod 16 < 16" by simp
  moreover have "hexval (CHR ''0'') = Some 0" by (simp add: hexval_def)
  moreover have "char_of (16 * (?n div 16) + ?n mod 16) = c" by simp
  ultimately show ?thesis by (simp add: decode_u_def hexval_hexdigit)
qed

lemma scanstring_escape_char:
  "scanstring (escape_char c @ rest) =
     (case scanstring rest of None \<Rightarrow> None | Some (s, r) \<Rightarrow> Some (c # s, r))"
proof -
  let ?n = "of_char c :: nat"
  consider (dq) "?n = 34" | (bs) "?n = 92" | (b) "?n = 8" | (f) "?n = 12" | (n) "?n = 10"
    | (r) "?n = 13" | (t) "?n = 9"
    | (u) "?n \<noteq> 34" "?n \<noteq> 92" "?n \<noteq> 8" "?n \<noteq> 12" "?n \<noteq> 10" "?n \<noteq> 13" "?n \<noteq> 9"
          "?n < 32 \<or> 126 < ?n"
    | (p) "?n \<noteq> 34" "?n \<noteq> 92" "32 \<le> ?n" "?n \<le> 126"
    by linarith
  then show ?thesis
  proof cases
    case dq
    then have "c = CHR 0x22" by (simp add: char_eq_code)
    then show ?thesis by (simp add: escape_char_def unescape_def split: option.splits)
  next
    case bs
    then have "c = CHR 0x5C" by (simp add: char_eq_code)
    then show ?thesis by (simp add: escape_char_def unescape_def split: option.splits)
  next
    case b
    then have "c = CHR 0x08" by (simp add: char_eq_code)
    then show ?thesis by (simp add: escape_char_def unescape_def split: option.splits)
  next
    case f
    then have "c = CHR 0x0C" by (simp add: char_eq_code)
    then show ?thesis by (simp add: escape_char_def unescape_def split: option.splits)
  next
    case n
    then have "c = CHR 0x0A" by (simp add: char_eq_code)
    then show ?thesis by (simp add: escape_char_def unescape_def split: option.splits)
  next
    case r
    then have "c = CHR 0x0D" by (simp add: char_eq_code)
    then show ?thesis by (simp add: escape_char_def unescape_def split: option.splits)
  next
    case t
    then have "c = CHR 0x09" by (simp add: char_eq_code)
    then show ?thesis by (simp add: escape_char_def unescape_def split: option.splits)
  next
    case u
    then have ne: "c \<noteq> CHR 0x22" "c \<noteq> CHR 0x5C" by (auto simp: char_eq_code)
    have esc: "escape_char c = [CHR 0x5C, CHR ''u'', CHR ''0'', CHR ''0'',
        hexdigit (?n div 16), hexdigit (?n mod 16)]"
      using u ne by (simp add: escape_char_def Let_def)
    show ?thesis
      by (simp add: esc decode_u_escape split: option.splits)
  next
    case p
    then have ne: "c \<noteq> CHR 0x22" "c \<noteq> CHR 0x5C" by (auto simp: char_eq_code)
    have esc: "escape_char c = [c]"
      using p ne by (simp add: escape_char_def Let_def)
    show ?thesis using p ne by (simp add: esc)
  qed
qed

lemma scanstring_encoded:
  "scanstring (concat (map escape_char s) @ CHR 0x22 # rest) = Some (s, rest)"
  by (induction s) (simp_all add: scanstring_escape_char del: scanstring.simps(2), simp)

lemma scanstring_encode_string:
  "encode_string s @ rest = CHR 0x22 # t \<Longrightarrow> scanstring t = Some (s, rest)"
  using scanstring_encoded [of s rest] by (simp add: encode_string_def)

lemma skip_ws_spaces:
  "\<not> is_ws c \<Longrightarrow> skip_ws (replicate n (CHR '' '') @ c # t) = c # t"
  by (induction n) (simp_all add: skip_ws_def is_ws_def)

lemma skip_ws_stop: "\<not> is_ws c \<Longrightarrow> skip_ws (c # t) = c # t"
  by (simp add: skip_ws_def)

lemma dump_items_starts:
  "m \<noteq> [] \<Longrightarrow> \<exists>t. dump_items sep m = CHR 0x22 # t"
  by (induction sep m rule: dump_items.induct) (simp_all add: encode_string_def)

lemma parse_member_step:
  assumes "skip_ws after = c5 # s6"
  shows "parse_members acc (encode_string k @ '': '' @ encode_string v @ after) =
     (if c5 = CHR '','' then parse_members (AList.update k v acc) (skip_ws s6)
      else if c5 = CHR ''}'' then Some (AList.update k v acc, s6)
      else None)"
proof -
  let ?tail = "CHR '':'' # CHR '' '' # (encode_string v @ after)"
  have k: "scanstring (concat (map escape_char k) @ CHR 0x22 # ?tail) = Some (k, ?tail)"
    by (rule scanstring_encoded)
  have v: "scanstring (concat (map escape_char v) @ CHR 0x22 # after) = Some (v, after)"
    by (rule scanstring_encoded)
  have ws1: "skip_ws ?tail = ?tail"
    by (simp add: skip_ws_def is_ws_def)
  have ws2: "skip_ws (CHR '' '' # (encode_string v @ after)) = encode_string v @ after"
    by (simp add: skip_ws_def is_ws_def encode_string_def)
  show ?thesis
    using k v ws1 ws2 assms
    by (subst parse_members.simps) (simp add: encode_string_def)
qed

lemma parse_members_dump:
  "m \<noteq> [] \<Longrightarrow>
   parse_members acc
     (dump_items (CHR '','' # CHR 0x0A # replicate n (CHR '' '')) m @ CHR 0x0A # CHR ''}'' # rest)
   = Some (fold (\<lambda>(k, v). AList.update k v) m acc, rest)"
proof (induction "CHR '','' # CHR 0x0A # replicate n (CHR '' '')" m arbitrary: acc
    rule: dump_items.induct)
  case 1
  then show ?case by simp
next
  case (2 k v)
  have "skip_ws (CHR 0x0A # CHR ''}'' # rest) = CHR ''}'' # rest"
    by (simp add: skip_ws_def is_ws_def)
  from parse_member_step [OF this, of acc k v] show ?case by simp
next
  case (3 k v kv more)
  let ?sep = "CHR '','' # CHR 0x0A # replicate n (CHR '' '')"
  obtain t where t: "dump_items ?sep (kv # more) = CHR 0x22 # t"
    using dump_items_starts [of "kv # more" ?sep] by auto
  let ?next = "dump_items ?sep (kv # more) @ CHR 0x0A # CHR ''}'' # rest"
  have a: "skip_ws (?sep @ ?next) = CHR '','' # CHR 0x0A # (replicate n (CHR '' '') @ ?next)"
    by (simp add: skip_ws_def is_ws_def)
  have b: "skip_ws (CHR 0x0A # (replicate n (CHR '' '') @ ?next)) = ?next"
  proof -
    have "skip_ws (CHR 0x0A # (replicate n (CHR '' '') @ ?next))
        = skip_ws (replicate n (CHR '' '') @ ?next)"
      by (simp add: skip_ws_def is_ws_def)
    also have "\<dots> = ?next"
      using skip_ws_spaces [of "CHR 0x22" n "t @ CHR 0x0A # CHR ''}'' # rest"] t
      by (simp add: is_ws_def)
    finally show ?thesis .
  qed
  have ih: "parse_members (AList.update k v acc) ?next
      = Some (fold (\<lambda>(k, v). AList.update k v) (kv # more) (AList.update k v acc), rest)"
    using "3.hyps" [of "AList.update k v acc"] by simp
  from parse_member_step [OF a, of acc k v] b ih show ?case by simp
qed

lemma update_fresh: "k \<notin> fst ` set acc \<Longrightarrow> AList.update k v acc = acc @ [(k, v)]"
  by (induction acc) auto

lemma fold_update_fresh:
  "distinct (map fst m) \<Longrightarrow> fst ` set acc \<inter> fst ` set m = {} \<Longrightarrow>
   fold (\<lambda>(k, v). AList.update k v) m acc = acc @ m"
proof (induction m arbitrary: acc)
  case Nil
  then show ?case by simp
next
  case (Cons kv m)
  obtain k v where kv: "kv = (k, v)" by (cases kv)
  have fresh: "k \<notin> fst ` set acc" using Cons.prems(2) kv by auto
  have "fst ` set (acc @ [(k, v)]) \<inter> fst ` set m = {}"
    using Cons.prems kv by auto
  moreover have "distinct (map fst m)" using Cons.prems(1) by simp
  ultimately have "fold (\<lambda>(k, v). AList.update k v) m (acc @ [(k, v)]) = (acc @ [(k, v)]) @ m"
    by (rule Cons.IH [rotated])
  then show ?case using fresh kv by (simp add: update_fresh)
qed

lemma json_load_empty: "json_load ''{}'' = Inr []"
  by (simp add: json_load_def skip_ws_def is_ws_def)

lemma json_load_dump:
  assumes "distinct (map fst m)"
  shows "json_load (json_dump (Some n) m) = Inr m"
proof (cases "m = []")
  case True
  then show ?thesis by (simp add: json_dump_def json_load_empty)
next
  case False
  let ?sep = "CHR '','' # CHR 0x0A # replicate n (CHR '' '')"
  obtain t where t: "dump_items ?sep m = CHR 0x22 # t"
    using dump_items_starts [OF False, of ?sep] by auto
  let ?body = "dump_items ?sep m @ CHR 0x0A # CHR ''}'' # []"
  have doc: "json_dump (Some n) m = CHR ''{'' # CHR 0x0A # (replicate n (CHR '' '') @ ?body)"
    using False by (simp add: json_dump_def)
  have a: "skip_ws (CHR 0x0A # (replicate n (CHR '' '') @ ?body)) = CHR 0x22 # (t @ [CHR 0x0A, CHR ''}''])"
  proof -
    have "skip_ws (CHR 0x0A # (replicate n (CHR '' '') @ ?body))
        = skip_ws (replicate n (CHR '' '') @ ?body)"
      by (simp add: skip_ws_def is_ws_def)
    also have "\<dots> = CHR 0x22 # (t @ [CHR 0x0A, CHR ''}''])"
      using skip_ws_spaces [of "CHR 0x22" n "t @ [CHR 0x0A, CHR ''}'']"] t
      by (simp add: is_ws_def)
    finally show ?thesis .
  qed
  have p: "parse_members [] (CHR 0x22 # (t @ [CHR 0x0A, CHR ''}''])) = Some (m, [])"
    using parse_members_dump [OF False, of "[]" n "[]"] t fold_update_fresh [OF assms, of "[]"]
    by simp
  show ?thesis
    unfolding doc json_load_def
    using a p by (simp add: skip_ws_def is_ws_def)
qed

subsection \<open>The ledger file\<close>

lemma dump_items_append:
  "m \<noteq> [] \<Longrightarrow> dump_items sep (m @ [kv]) = dump_items sep m @ sep @ dump_items sep [kv]"
proof (induction sep m rule: dump_items.induct)
  case (1 sep)
  then show ?case by simp
next
  case (2 sep k v)
  then show ?case by (cases kv) simp
next
  case (3 sep k v kv' more)
  then show ?case by (cases "more @ [kv]") auto
qed

lemma length_json_dump_append:
  "length (json_dump (Some n) m) \<le> length (json_dump (Some n) (m @ [(k, v)]))"
proof (cases "m = []")
  case True
  then show ?thesis by (simp add: json_dump_def encode_string_def)
next
  case False
  then show ?thesis by (simp add: json_dump_def dump_items_append)
qed

lemma write_at_start_longer:
  "length content \<le> length doc \<Longrightarrow> write_at_start doc content = doc"
  by (simp add: write_at_start_def)

text \<open>
  On a ledger that is absent, or that holds the document of \<open>m\<close> as the program writes
  it, a move from a source that is not yet a key adds the item \<open>(src, dest)\<close> at the end.
\<close>

lemma log_movement_fresh:
  assumes "log_fault w = None"
    and "(log_file w = None \<and> m = []) \<or> log_file w = Some (json_dump (Some 4) m)"
    and "distinct (map fst m)" and "src \<notin> fst ` set m"
  shows "log_movement src dest w =
           (None, w\<lparr>log_file := Some (json_dump (Some 4) (m @ [(src, dest)]))\<rparr>)"
proof -
  have upd: "AList.update src dest m = m @ [(src, dest)]"
    using assms(4) by (rule update_fresh)
  have load: "json_load (json_dump (Some 4) m) = Inr m"
    using assms(3) by (rule json_load_dump)
  have len: "length (json_dump (Some 4) m) \<le> length (json_dump (Some 4) (m @ [(src, dest)]))"
    by (rule length_json_dump_append)
  from assms(2) show ?thesis
  proof
    assume a: "log_file w = None \<and> m = []"
    have e: "json_dump None [] = json_dump (Some 4) []" by (simp add: json_dump_def)
    show ?thesis
      using a assms(1) load len upd
      by (simp add: log_movement_def e write_at_start_longer)
  next
    assume a: "log_file w = Some (json_dump (Some 4) m)"
    show ?thesis
      using a assms(1) load len upd
      by (simp add: log_movement_def write_at_start_longer)
  qed
qed

lemma calls_log_movement: "calls (snd (log_movement src dest w)) = calls w"
  by (simp add: log_movement_def Let_def split: option.splits sum.splits)

lemma files_log_movement: "files (snd (log_movement src dest w)) = files w"
  by (simp add: log_movement_def Let_def split: option.splits sum.splits)

lemma alerts_log_movement: "alerts (snd (log_movement src dest w)) = alerts w"
  by (simp add: log_movement_def Let_def split: option.splits sum.splits)

subsection \<open>Single steps of the pass\<close>

declare read_chunks.simps [simp del]

lemma read_chunks_all: "0 < n \<Longrightarrow> read_chunks n remaining hasher = hasher @ remaining"
proof (induction n remaining hasher rule: read_chunks.induct)
  case (1 chunk_size remaining hasher)
  show ?case
  proof (cases "take chunk_size remaining = []")
    case True
    with "1.prems" have "remaining = []" by (cases remaining) auto
    then show ?thesis by (subst read_chunks.simps) simp
  next
    case False
    from "1.IH" [OF refl False "1.prems"]
    have "read_chunks chunk_size (drop chunk_size remaining) (hasher @ take chunk_size remaining)
        = (hasher @ take chunk_size remaining) @ drop chunk_size remaining" .
    with False show ?thesis by (subst read_chunks.simps) (simp add: Let_def)
  qed
qed

lemma get_file_hash_ok:
  "read_fault w p = None \<Longrightarrow> files w p = Some c \<Longrightarrow> get_file_hash md5 p w = Inr (md5 c)"
  by (simp add: get_file_hash_def read_chunks_all)

lemma shutil_move_ok:
  "faults w (length (calls w)) = None \<Longrightarrow> files w p = Some c \<Longrightarrow>
   shutil_move p n w =
     (None, w\<lparr>calls := calls w @ [(p, n)], files := ((files w)(p := None))(n \<mapsto> c)\<rparr>)"
  by (simp add: shutil_move_def os_rename_def)

lemma calls_shutil_move: "calls (snd (shutil_move p n w)) = calls w @ [(p, n)]"
  by (simp add: shutil_move_def os_rename_def Let_def split: option.splits)

lemma shutil_move_failed:
  "fst (shutil_move p n w) = Some e \<Longrightarrow>
   files (snd (shutil_move p n w)) p = files w p \<and>
   log_file (snd (shutil_move p n w)) = log_file w \<and>
   alerts (snd (shutil_move p n w)) = alerts w"
  by (auto simp: shutil_move_def os_rename_def Let_def split: option.splits)

lemma calls_move_and_log: "calls (move_and_log p n w) = calls w @ [(p, n)]"
  using calls_shutil_move [of p n w]
  by (cases "shutil_move p n w") (auto simp: move_and_log_def calls_log_movement split: option.splits)

lemma move_and_log_ok:
  assumes "faults w (length (calls w)) = None" and "files w p = Some c"
    and "log_fault w = None"
    and "(log_file w = None \<and> m = []) \<or> log_file w = Some (json_dump (Some 4) m)"
    and "distinct (map fst m)" and "p \<notin> fst ` set m"
  shows "move_and_log p n w =
           w\<lparr>calls := calls w @ [(p, n)], files := ((files w)(p := None))(n \<mapsto> c),
             log_file := Some (json_dump (Some 4) (m @ [(p, n)]))\<rparr>"
proof -
  let ?w1 = "w\<lparr>calls := calls w @ [(p, n)], files := ((files w)(p := None))(n \<mapsto> c)\<rparr>"
  have mv: "shutil_move p n w = (None, ?w1)"
    using assms(1,2) by (rule shutil_move_ok)
  have "log_movement p n ?w1 =
      (None, ?w1\<lparr>log_file := Some (json_dump (Some 4) (m @ [(p, n)]))\<rparr>)"
    using assms(3,4,5,6) by (intro log_movement_fresh) simp_all
  with mv show ?thesis by (simp add: move_and_log_def)
qed

declare scan_files.simps [simp del]

lemma scan_files_append:
  "scan_files md5 directory custom_rules (xs @ ys) hash_map duplicates w =
     (case scan_files md5 directory custom_rules xs hash_map duplicates w of
        (Inl e, w1) \<Rightarrow> (Inl e, w1)
      | (Inr (hash_map1, duplicates1), w1) \<Rightarrow>
          scan_files md5 directory custom_rules ys hash_map1 duplicates1 w1)"
proof (induction xs arbitrary: hash_map duplicates w)
  case Nil
  then show ?case by (simp add: scan_files.simps)
next
  case (Cons x xs)
  obtain root filename where x: "x = (root, filename)" by (cases x)
  let ?p = "os_path_join root filename"
  let ?t = "os_path_join directory
              (target_folder_name (lower (splitext_ext filename)) custom_rules)"
  show ?case
  proof (cases "os_makedirs ?t w")
    case (Some e)
    then show ?thesis by (simp add: x Let_def scan_files.simps)
  next
    case None
    note mk = None
    show ?thesis
    proof (cases "get_file_hash md5 ?p w")
      case (Inl e)
      with mk show ?thesis by (simp add: x Let_def scan_files.simps)
    next
      case (Inr h)
      show ?thesis
      proof (cases "hash_map h")
        case None
        with mk Inr show ?thesis by (simp add: x Let_def scan_files.simps) (rule Cons.IH)
      next
        case (Some original)
        with mk Inr show ?thesis by (simp add: x Let_def scan_files.simps Cons.IH)
      qed
    qed
  qed
qed

subsection \<open>Classification\<close>

lemma get_folder_name_range:
  "get_folder_name e m \<in> set (map snd m) \<union> {''Others''}"
  by (induction m) (auto simp: rev_image_eqI)

text \<open>
  Claim C7, as stated: classification with no custom rules returns a built-in category
  name or \<open>Others\<close>, and a custom rule for an extension replaces the built-in result
  for every custom category value. The second half fails for the empty category: the
  rule for \<open>.jpg\<close> is present with the empty string as its category, yet the result
  is \<open>Images\<close>.
\<close>

theorem custom_rule_empty_counterexample:
  "[''.jpg'' \<mapsto> ''''] ''.jpg'' = Some '''' \<and>
   target_folder_name ''.jpg'' [''.jpg'' \<mapsto> ''''] = ''Images''"
  by (simp add: target_folder_name_def EXTENSIONS_def)

text \<open>
  Claim C7, amended: classification with no custom rules returns a built-in category name
  or \<open>Others\<close>; a custom rule with a non-empty category replaces the built-in result;
  a custom rule with the empty category leaves the built-in result in place.
\<close>

theorem classify_total_and_override:
  "target_folder_name e Map.empty \<in> set (map snd EXTENSIONS) \<union> {''Others''} \<and>
   (custom_rules e = Some c \<and> c \<noteq> [] \<longrightarrow> target_folder_name e custom_rules = c) \<and>
   (custom_rules e = Some [] \<longrightarrow>
      target_folder_name e custom_rules = get_folder_name e EXTENSIONS)"
  using get_folder_name_range [of e EXTENSIONS]
  by (simp add: target_folder_name_def)

theorem classify_total_and_override_witness:
  "target_folder_name ''.jpg'' Map.empty \<in> set (map snd EXTENSIONS) \<union> {''Others''} \<and>
   target_folder_name ''.jpg'' [''.jpg'' \<mapsto> ''Pictures''] = ''Pictures'' \<and>
   target_folder_name ''.jpg'' [''.jpg'' \<mapsto> ''''] = get_folder_name ''.jpg'' EXTENSIONS"
  using classify_total_and_override [of "''.jpg''" "[''.jpg'' \<mapsto> ''Pictures'']" "''Pictures''"]
    classify_total_and_override [of "''.jpg''" "[''.jpg'' \<mapsto> '''']" "''''"]
  by simp

subsection \<open>The retry policy\<close>

text \<open>
  Claim C10: with \<open>retries = 0\<close> no rename is attempted (the world's calls are
  untouched), the result is \<open>False\<close>, and exactly one alert is sent.
\<close>

theorem retry_zero_alerts_once:
  "retry_move_file source destination 0 delay w =
     (Inr False,
      w\<lparr>alerts := alerts w @
          [''ALERT: Failed to move '' @ source @ '' to '' @ destination @
           '' after multiple attempts. Please check the log for details.'']\<rparr>)"
  by (simp add: retry_move_file_def retry_loop.simps alert_user_def)

text \<open>
  Claim C6: when the first attempt raises an error classified as non-recoverable, the
  function makes exactly one rename call, returns \<open>False\<close> and sends no alert: the
  world changes in its list of calls only.
\<close>

theorem non_recoverable_one_attempt:
  assumes "0 < retries"
    and "fst (os_rename source destination w) = Some e"
    and "categorize_error e = ''non_recoverable''"
  shows "retry_move_file source destination retries delay w =
           (Inr False, w\<lparr>calls := calls w @ [(source, destination)]\<rparr>)"
  using assms
  by (auto simp: retry_move_file_def retry_loop.simps [of _ _ _ _ 0] os_rename_def Let_def
       categorize_error_def split: option.splits if_splits)

theorem non_recoverable_one_attempt_witness:
  "fst (os_rename ''gone.txt'' ''Documents/gone.txt'' quiet_world) = Some FileNotFoundError \<and>
   categorize_error FileNotFoundError = ''non_recoverable'' \<and>
   retry_move_file ''gone.txt'' ''Documents/gone.txt'' 3 2 quiet_world =
     (Inr False, quiet_world\<lparr>calls := [(''gone.txt'', ''Documents/gone.txt'')]\<rparr>)"
proof -
  have a: "fst (os_rename ''gone.txt'' ''Documents/gone.txt'' quiet_world) = Some FileNotFoundError"
    by (simp add: os_rename_def quiet_world_def)
  have b: "categorize_error FileNotFoundError = ''non_recoverable''"
    by (simp add: categorize_error_def)
  have c: "calls quiet_world = []" by (simp add: quiet_world_def)
  show ?thesis
    using a b c non_recoverable_one_attempt [of 3, OF _ a b, of 2] by simp
qed




subsection \<open>Helpers for single calls\<close>

lemma os_makedirs_None:
  "os_makedirs t w = None \<longleftrightarrow> mkdir_fault w t = None \<and> t \<noteq> [] \<and> files w t = None"
  by (simp add: os_makedirs_def split: option.splits)

subsection \<open>Facts about the example paths\<close>

lemma example_paths:
  "os_path_join ''d'' ''a.jpg'' = ''d/a.jpg''"
  "os_path_join ''d'' ''b.txt'' = ''d/b.txt''"
  "os_path_join ''d'' ''c.jpg'' = ''d/c.jpg''"
  "os_path_join ''d'' (target_folder_name (lower (splitext_ext ''a.jpg'')) Map.empty) = ''d/Images''"
  "os_path_join ''d'' (target_folder_name (lower (splitext_ext ''b.txt'')) Map.empty) = ''d/Documents''"
  "os_path_join ''d'' (target_folder_name (lower (splitext_ext ''c.jpg'')) Map.empty) = ''d/Images''"
  "os_path_join ''d/Images'' ''a.jpg'' = ''d/Images/a.jpg''"
  "os_path_join ''d/Documents'' ''b.txt'' = ''d/Documents/b.txt''"
  "os_path_dirname ''d/Images/a.jpg'' = ''d/Images''"
  by code_simp+

lemma example_queries:
  "strip ''d/a.jpg'' = ''d/a.jpg''"
  "strip ''a.jpg'' = ''a.jpg''"
  "is_substring ''d/a.jpg'' ''d/Images/a.jpg'' = False"
  "is_substring ''a.jpg'' ''d/Images/a.jpg'' = True"
  "is_substring ''d/a.jpg'' ''d/a.jpg'' = True"
  "is_substring ''a.jpg'' ''d/a.jpg'' = True"
  by code_simp+

lemma json_dump_empty: "json_dump indent [] = ''{}''"
  by (simp add: json_dump_def)

lemma scan_step_moved:
  assumes "file_path = os_path_join root filename"
    and "target_folder =
           os_path_join directory (target_folder_name (lower (splitext_ext filename)) custom_rules)"
    and "new_path = os_path_join target_folder filename"
    and "os_makedirs target_folder w = None"
    and "read_fault w file_path = None" and "files w file_path = Some c"
    and "hash_map (md5 c) = None"
  shows "scan_files md5 directory custom_rules ((root, filename) # rest) hash_map duplicates w =
           scan_files md5 directory custom_rules rest (hash_map(md5 c \<mapsto> file_path)) duplicates
             (move_and_log file_path new_path w)"
  using assms(4,7) get_file_hash_ok [OF assms(5,6), of md5]
  by (simp add: scan_files.simps Let_def assms(1,2,3) [symmetric])

lemma photo_world_fields:
  "files photo_world = [''d/a.jpg'' \<mapsto> ''AAA'']" "calls photo_world = []"
  "log_file photo_world = None" "log_fault photo_world = None" "alerts photo_world = []"
  "faults photo_world = (\<lambda>n. None)" "read_fault photo_world = (\<lambda>p. None)"
  "mkdir_fault photo_world = (\<lambda>p. None)"
  by (simp_all add: photo_world_def quiet_world_def)

lemma photo_move_and_log:
  "move_and_log ''d/a.jpg'' ''d/Images/a.jpg'' photo_world =
     photo_world\<lparr>calls := [(''d/a.jpg'', ''d/Images/a.jpg'')],
       files := [''d/Images/a.jpg'' \<mapsto> ''AAA''],
       log_file := Some (json_dump (Some 4) [(''d/a.jpg'', ''d/Images/a.jpg'')])\<rparr>"
proof -
  have "move_and_log ''d/a.jpg'' ''d/Images/a.jpg'' photo_world =
     photo_world\<lparr>calls := calls photo_world @ [(''d/a.jpg'', ''d/Images/a.jpg'')],
       files := ((files photo_world)(''d/a.jpg'' := None))(''d/Images/a.jpg'' \<mapsto> ''AAA''),
       log_file := Some (json_dump (Some 4) ([] @ [(''d/a.jpg'', ''d/Images/a.jpg'')]))\<rparr>"
    by (rule move_and_log_ok) (simp_all add: photo_world_fields)
  then show ?thesis by (simp add: photo_world_fields)
qed

lemma organize_photo_world:
  "organize_files plain_digest ''d'' Map.empty [(''d'', ''a.jpg'')] [] photo_world =
     (None,
      photo_world\<lparr>calls := [(''d/a.jpg'', ''d/Images/a.jpg'')],
        files := [''d/Images/a.jpg'' \<mapsto> ''AAA''],
        log_file := Some (json_dump (Some 4) [(''d/a.jpg'', ''d/Images/a.jpg'')])\<rparr>)"
proof -
  have "scan_files plain_digest ''d'' Map.empty [(''d'', ''a.jpg'')] Map.empty [] photo_world =
      scan_files plain_digest ''d'' Map.empty [] [plain_digest ''AAA'' \<mapsto> ''d/a.jpg''] []
        (move_and_log ''d/a.jpg'' ''d/Images/a.jpg'' photo_world)"
    by (rule scan_step_moved [where target_folder = "''d/Images''"])
       (simp_all add: example_paths os_makedirs_None photo_world_fields)
  then show ?thesis
    by (simp add: organize_files_def photo_move_and_log handle_duplicates_def scan_files.simps)
qed

lemma organized_world_eq:
  "organized_world =
     photo_world\<lparr>calls := [(''d/a.jpg'', ''d/Images/a.jpg'')],
       files := [''d/Images/a.jpg'' \<mapsto> ''AAA''],
       log_file := Some (json_dump (Some 4) [(''d/a.jpg'', ''d/Images/a.jpg'')])\<rparr>"
  by (simp add: organized_world_def organize_photo_world)

subsection \<open>The ledger and undo\<close>

text \<open>
  Claim C2 says that the record of a move has the new path as its key and the original
  path as its value. The code writes them the other way round: after the pass over the
  directory \<^verbatim>\<open>d\<close> that moves \<^verbatim>\<open>d/a.jpg\<close> to \<^verbatim>\<open>d/Images/a.jpg\<close>, the ledger decodes to the
  one item whose key is the original path \<^verbatim>\<open>d/a.jpg\<close> and whose value is the new path.
\<close>

theorem ledger_key_is_original_path:
  "fst (organize_files plain_digest ''d'' Map.empty [(''d'', ''a.jpg'')] [] photo_world) = None \<and>
   files organized_world ''d/a.jpg'' = None \<and>
   files organized_world ''d/Images/a.jpg'' = Some ''AAA'' \<and>
   log_file organized_world = Some (json_dump (Some 4) [(''d/a.jpg'', ''d/Images/a.jpg'')]) \<and>
   json_load (json_dump (Some 4) [(''d/a.jpg'', ''d/Images/a.jpg'')]) =
     Inr [(''d/a.jpg'', ''d/Images/a.jpg'')]"
  by (simp add: organize_photo_world organized_world_eq json_load_dump)

text \<open>
  Claim C1 says that undo, asked for the original path of a file that a pass has moved,
  moves the file back and removes its record. After the pass above, undo is asked for
  \<^verbatim>\<open>d/a.jpg\<close>: it reads the key \<^verbatim>\<open>d/a.jpg\<close> as the place the file is at and the value
  \<^verbatim>\<open>d/Images/a.jpg\<close> as the place it came from, finds the input in no value, and changes
  nothing. Asked for \<^verbatim>\<open>a.jpg\<close>, which both paths contain, it tries to move \<^verbatim>\<open>d/a.jpg\<close> to
  \<^verbatim>\<open>d/Images/a.jpg\<close>, which fails, and drops the record: the file is still not back.
\<close>

theorem undo_does_not_move_back:
  "undo_selected_moves [''d/a.jpg''] organized_world = (None, organized_world) \<and>
   files organized_world ''d/a.jpg'' = None \<and>
   files organized_world ''d/Images/a.jpg'' = Some ''AAA'' \<and>
   fst (undo_selected_moves [''a.jpg''] organized_world) = None \<and>
   files (snd (undo_selected_moves [''a.jpg''] organized_world)) ''d/a.jpg'' = None \<and>
   files (snd (undo_selected_moves [''a.jpg''] organized_world)) ''d/Images/a.jpg'' = Some ''AAA'' \<and>
   calls (snd (undo_selected_moves [''a.jpg''] organized_world)) =
     [(''d/a.jpg'', ''d/Images/a.jpg''), (''d/a.jpg'', ''d/Images/a.jpg'')] \<and>
   log_file (snd (undo_selected_moves [''a.jpg''] organized_world)) = Some ''{}''"
proof -
  have load: "json_load (json_dump (Some 4) [(''d/a.jpg'', ''d/Images/a.jpg'')]) =
      Inr [(''d/a.jpg'', ''d/Images/a.jpg'')]"
    by (simp add: json_load_dump)
  have lf: "log_file organized_world =
      Some (json_dump (Some 4) [(''d/a.jpg'', ''d/Images/a.jpg'')])"
    "log_fault organized_world = None"
    by (simp_all add: organized_world_eq photo_world_fields)
  have first: "undo_selected_moves [''d/a.jpg''] organized_world = (None, organized_world)"
    by (simp add: undo_selected_moves_def lf load example_queries Let_def)
  have retour: "move_back ''d/a.jpg'' ''d/Images/a.jpg'' organized_world =
      organized_world\<lparr>calls := [(''d/a.jpg'', ''d/Images/a.jpg''), (''d/a.jpg'', ''d/Images/a.jpg'')]\<rparr>"
  proof -
    have mk: "os_makedirs ''d/Images'' organized_world = None"
      by (simp add: os_makedirs_None organized_world_eq photo_world_fields)
    have mv: "shutil_move ''d/a.jpg'' ''d/Images/a.jpg'' organized_world =
        (Some FileNotFoundError,
         organized_world\<lparr>calls := [(''d/a.jpg'', ''d/Images/a.jpg''),
           (''d/a.jpg'', ''d/Images/a.jpg'')]\<rparr>)"
      by (simp add: shutil_move_def os_rename_def organized_world_eq photo_world_fields)
    show ?thesis
      by (simp add: move_back_def example_paths mk mv)
  qed
  have second: "undo_selected_moves [''a.jpg''] organized_world =
      (None, organized_world\<lparr>calls := [(''d/a.jpg'', ''d/Images/a.jpg''),
           (''d/a.jpg'', ''d/Images/a.jpg'')], log_file := Some ''{}''\<rparr>)"
    by (simp add: undo_selected_moves_def lf load example_queries Let_def retour
        json_dump_empty)
  show ?thesis
    unfolding first second
    by (simp add: organized_world_eq)
qed

text \<open>
  Claim C9 says that after a record is written the file holds the document of the merged
  ledger and nothing else. The code writes the new document from position 0 and does
  not truncate. The ledger holds \<^verbatim>\<open>d/a.txt\<close> with \<^verbatim>\<open>d/Documents/a.txt\<close>; the record of a
  move of \<^verbatim>\<open>d/a.txt\<close> to \<^verbatim>\<open>d/T/a.txt\<close> makes the document eight characters shorter, and the
  last eight characters of the old document stay behind it. The file no longer decodes.
\<close>

theorem log_movement_leaves_stale_bytes:
  "log_movement ''d/a.txt'' ''d/T/a.txt'' relog_world =
     (None,
      relog_world\<lparr>log_file :=
        Some (json_dump (Some 4) [(''d/a.txt'', ''d/T/a.txt'')] @ ''a.txt'' @ [CHR 0x22, CHR 0x0A] @ ''}'')\<rparr>) \<and>
   json_load (json_dump (Some 4) [(''d/a.txt'', ''d/T/a.txt'')] @ ''a.txt'' @ [CHR 0x22, CHR 0x0A] @ ''}'')
     = Inl JSONDecodeError"
proof -
  have load: "json_load (json_dump (Some 4) [(''d/a.txt'', ''d/Documents/a.txt'')]) =
      Inr [(''d/a.txt'', ''d/Documents/a.txt'')]"
    by (simp add: json_load_dump)
  have w: "write_at_start (json_dump (Some 4) [(''d/a.txt'', ''d/T/a.txt'')])
             (json_dump (Some 4) [(''d/a.txt'', ''d/Documents/a.txt'')]) =
           json_dump (Some 4) [(''d/a.txt'', ''d/T/a.txt'')] @ ''a.txt'' @ [CHR 0x22, CHR 0x0A] @ ''}''"
    by code_simp
  have bad: "json_load (json_dump (Some 4) [(''d/a.txt'', ''d/T/a.txt'')] @ ''a.txt'' @ [CHR 0x22, CHR 0x0A] @ ''}'')
     = Inl JSONDecodeError"
    by code_simp
  have "log_movement ''d/a.txt'' ''d/T/a.txt'' relog_world =
     (None,
      relog_world\<lparr>log_file :=
        Some (json_dump (Some 4) [(''d/a.txt'', ''d/T/a.txt'')] @ ''a.txt'' @ [CHR 0x22, CHR 0x0A] @ ''}'')\<rparr>)"
    using load w
    by (simp add: log_movement_def relog_world_def quiet_world_def)
  with bad show ?thesis by simp
qed

subsection \<open>Moves during the pass\<close>

lemma busy_world_fields:
  "files busy_world = [''d/a.jpg'' \<mapsto> ''AAA'']" "calls busy_world = []"
  "log_file busy_world = None" "log_fault busy_world = None" "alerts busy_world = []"
  "faults busy_world = (\<lambda>n. if n = 0 then Some PermissionError else None)"
  "copied busy_world = (\<lambda>n. False)"
  "read_fault busy_world = (\<lambda>p. None)" "mkdir_fault busy_world = (\<lambda>p. None)"
  by (simp_all add: busy_world_def photo_world_def quiet_world_def)

lemma busy_move:
  "shutil_move ''d/a.jpg'' ''d/Images/a.jpg'' busy_world =
     (Some PermissionError, busy_world\<lparr>calls := [(''d/a.jpg'', ''d/Images/a.jpg'')]\<rparr>)"
  by (simp add: shutil_move_def os_rename_def busy_world_fields)

lemma busy_scan:
  "scan_files plain_digest ''d'' Map.empty [(''d'', ''a.jpg'')] Map.empty [] busy_world =
     (Inr ([''AAA'' \<mapsto> ''d/a.jpg''], []),
      busy_world\<lparr>calls := [(''d/a.jpg'', ''d/Images/a.jpg'')]\<rparr>)"
proof -
  have "scan_files plain_digest ''d'' Map.empty [(''d'', ''a.jpg'')] Map.empty [] busy_world =
      scan_files plain_digest ''d'' Map.empty [] [plain_digest ''AAA'' \<mapsto> ''d/a.jpg''] []
        (move_and_log ''d/a.jpg'' ''d/Images/a.jpg'' busy_world)"
    by (rule scan_step_moved [where target_folder = "''d/Images''"])
       (simp_all add: example_paths os_makedirs_None busy_world_fields)
  then show ?thesis
    by (simp add: move_and_log_def busy_move plain_digest_def scan_files.simps)
qed

text \<open>
  Claim C3, as stated: a file that is not a duplicate is moved under the retry policy, a
  recoverable failure of the first attempt being retried up to the maximum number of
  attempts. In the directory \<^verbatim>\<open>d\<close> the first move call meets a \<open>PermissionError\<close>, the
  later ones would meet none. The pass makes that one call and no other: the file is left
  where it was, with no record, although a second attempt would not have been refused.
\<close>

theorem organize_gives_up_after_one_attempt_counterexample:
  "fst (organize_files plain_digest ''d'' Map.empty [(''d'', ''a.jpg'')] [] busy_world) = None \<and>
   calls (snd (organize_files plain_digest ''d'' Map.empty [(''d'', ''a.jpg'')] [] busy_world)) =
     [(''d/a.jpg'', ''d/Images/a.jpg'')] \<and>
   files (snd (organize_files plain_digest ''d'' Map.empty [(''d'', ''a.jpg'')] [] busy_world))
     ''d/a.jpg'' = Some ''AAA'' \<and>
   files (snd (organize_files plain_digest ''d'' Map.empty [(''d'', ''a.jpg'')] [] busy_world))
     ''d/Images/a.jpg'' = None \<and>
   log_file (snd (organize_files plain_digest ''d'' Map.empty [(''d'', ''a.jpg'')] [] busy_world)) = None \<and>
   faults busy_world 0 = Some PermissionError \<and>
   categorize_error PermissionError = ''recoverable'' \<and>
   faults busy_world 1 = None \<and> faults busy_world 2 = None"
proof -
  have org: "organize_files plain_digest ''d'' Map.empty [(''d'', ''a.jpg'')] [] busy_world =
      (None, busy_world\<lparr>calls := [(''d/a.jpg'', ''d/Images/a.jpg'')]\<rparr>)"
    by (simp add: organize_files_def busy_scan handle_duplicates_def)
  show ?thesis
    by (simp add: org busy_world_fields categorize_error_def)
qed

text \<open>
  Claim C3, amended: during a pass a file that is not a duplicate is moved by a single
  call of \<^verbatim>\<open>shutil.move\<close>, with no retry and no classification of the error. The pass
  goes on with the next file whatever the call answers. When the call fails, the file
  is still at its place and no record is written. When it succeeds, \<open>log_movement\<close> is
  run on the source and the new path.
\<close>

theorem organize_moves_with_one_call:
  assumes "file_path = os_path_join root filename"
    and "target_folder =
           os_path_join directory (target_folder_name (lower (splitext_ext filename)) custom_rules)"
    and "new_path = os_path_join target_folder filename"
    and "os_makedirs target_folder w = None"
    and "get_file_hash md5 file_path w = Inr file_hash"
    and "hash_map file_hash = None"
  shows "scan_files md5 directory custom_rules ((root, filename) # rest) hash_map duplicates w =
           scan_files md5 directory custom_rules rest (hash_map(file_hash \<mapsto> file_path)) duplicates
             (move_and_log file_path new_path w)
       \<and> calls (move_and_log file_path new_path w) = calls w @ [(file_path, new_path)]
       \<and> (fst (shutil_move file_path new_path w) \<noteq> None \<longrightarrow>
            move_and_log file_path new_path w = snd (shutil_move file_path new_path w) \<and>
            files (move_and_log file_path new_path w) file_path = files w file_path \<and>
            log_file (move_and_log file_path new_path w) = log_file w)
       \<and> (fst (shutil_move file_path new_path w) = None \<longrightarrow>
            move_and_log file_path new_path w =
              snd (log_movement file_path new_path (snd (shutil_move file_path new_path w))))"
proof -
  have step: "scan_files md5 directory custom_rules ((root, filename) # rest) hash_map duplicates w =
           scan_files md5 directory custom_rules rest (hash_map(file_hash \<mapsto> file_path)) duplicates
             (move_and_log file_path new_path w)"
    using assms(4,5,6) by (simp add: scan_files.simps Let_def assms(1,2,3) [symmetric])
  have failed: "fst (shutil_move file_path new_path w) \<noteq> None \<longrightarrow>
      move_and_log file_path new_path w = snd (shutil_move file_path new_path w) \<and>
      files (move_and_log file_path new_path w) file_path = files w file_path \<and>
      log_file (move_and_log file_path new_path w) = log_file w"
    using shutil_move_failed [of file_path new_path w]
    by (cases "shutil_move file_path new_path w") (auto simp: move_and_log_def)
  have moved: "fst (shutil_move file_path new_path w) = None \<longrightarrow>
      move_and_log file_path new_path w =
        snd (log_movement file_path new_path (snd (shutil_move file_path new_path w)))"
    by (cases "shutil_move file_path new_path w") (auto simp: move_and_log_def)
  show ?thesis
    using step failed moved calls_move_and_log [of file_path new_path w] by blast
qed

theorem organize_moves_with_one_call_witness:
  "scan_files plain_digest ''d'' Map.empty [(''d'', ''a.jpg'')] Map.empty [] busy_world =
     scan_files plain_digest ''d'' Map.empty [] [''AAA'' \<mapsto> ''d/a.jpg''] []
       (move_and_log ''d/a.jpg'' ''d/Images/a.jpg'' busy_world) \<and>
   move_and_log ''d/a.jpg'' ''d/Images/a.jpg'' busy_world =
     busy_world\<lparr>calls := [(''d/a.jpg'', ''d/Images/a.jpg'')]\<rparr> \<and>
   calls (move_and_log ''d/a.jpg'' ''d/Images/a.jpg'' photo_world) =
     [(''d/a.jpg'', ''d/Images/a.jpg'')] \<and>
   move_and_log ''d/a.jpg'' ''d/Images/a.jpg'' photo_world =
     snd (log_movement ''d/a.jpg'' ''d/Images/a.jpg''
            (snd (shutil_move ''d/a.jpg'' ''d/Images/a.jpg'' photo_world)))"
proof -
  have hb: "get_file_hash plain_digest ''d/a.jpg'' busy_world = Inr ''AAA''"
    using get_file_hash_ok [of busy_world "''d/a.jpg''" "''AAA''" plain_digest]
    by (simp add: busy_world_fields plain_digest_def)
  have hp: "get_file_hash plain_digest ''d/a.jpg'' photo_world = Inr ''AAA''"
    using get_file_hash_ok [of photo_world "''d/a.jpg''" "''AAA''" plain_digest]
    by (simp add: photo_world_fields plain_digest_def)
  have mb: "os_makedirs ''d/Images'' busy_world = None"
    by (simp add: os_makedirs_None busy_world_fields)
  have mp: "os_makedirs ''d/Images'' photo_world = None"
    by (simp add: os_makedirs_None photo_world_fields)
  have ok: "fst (shutil_move ''d/a.jpg'' ''d/Images/a.jpg'' photo_world) = None"
    by (simp add: shutil_move_def os_rename_def photo_world_fields)
  note b = organize_moves_with_one_call [of "''d/a.jpg''" "''d''" "''a.jpg''" "''d/Images''"
      "''d''" Map.empty "''d/Images/a.jpg''" busy_world plain_digest "''AAA''" Map.empty "[]" "[]",
      OF _ _ _ mb hb]
  note p = organize_moves_with_one_call [of "''d/a.jpg''" "''d''" "''a.jpg''" "''d/Images''"
      "''d''" Map.empty "''d/Images/a.jpg''" photo_world plain_digest "''AAA''" Map.empty "[]" "[]",
      OF _ _ _ mp hp]
  show ?thesis
    using b p ok busy_move
    by (simp add: example_paths busy_world_fields photo_world_fields calls_log_movement
        calls_shutil_move)
qed

subsection \<open>A digest that cannot be computed\<close>

lemma unreadable_world_fields:
  "files unreadable_world =
     [''d/b.txt'' \<mapsto> ''BBB'', ''d/a.jpg'' \<mapsto> ''AAA'', ''d/c.jpg'' \<mapsto> ''CCC'']"
  "calls unreadable_world = []"
  "log_file unreadable_world = None" "log_fault unreadable_world = None"
  "faults unreadable_world = (\<lambda>n. None)"
  "read_fault unreadable_world = (\<lambda>p. if p = ''d/a.jpg'' then Some OSError else None)"
  "mkdir_fault unreadable_world = (\<lambda>p. None)"
  by (simp_all add: unreadable_world_def quiet_world_def)

text \<open>
  Claim C4, as stated: a file whose digest cannot be read is skipped, and the pass goes
  on with the remaining files. In the directory \<^verbatim>\<open>d\<close> the file \<^verbatim>\<open>a.jpg\<close> cannot be read
  and is scanned first: the pass ends with that error, and the file \<^verbatim>\<open>c.jpg\<close> behind it
  is never moved, no move call being made at all.
\<close>

theorem digest_error_aborts_pass_counterexample:
  "organize_files plain_digest ''d'' Map.empty [(''d'', ''a.jpg''), (''d'', ''c.jpg'')] []
     unreadable_world = (Some OSError, unreadable_world) \<and>
   files unreadable_world ''d/c.jpg'' = Some ''CCC'' \<and>
   calls unreadable_world = []"
proof -
  have mk: "os_makedirs ''d/Images'' unreadable_world = None"
    by (simp add: os_makedirs_None unreadable_world_fields)
  have h: "get_file_hash plain_digest ''d/a.jpg'' unreadable_world = Inl OSError"
    by (simp add: get_file_hash_def unreadable_world_fields)
  have "scan_files plain_digest ''d'' Map.empty [(''d'', ''a.jpg''), (''d'', ''c.jpg'')] Map.empty []
      unreadable_world = (Inl OSError, unreadable_world)"
    by (simp add: scan_files.simps Let_def example_paths mk h)
  then show ?thesis
    by (simp add: organize_files_def unreadable_world_fields)
qed

text \<open>
  Claim C4, amended: an error of the digest computation is caught nowhere in the pass.
  When the files before have been scanned and the digest of the next file cannot be
  computed, \<open>organize_files\<close> ends with that error in the world those files left: the
  file and all files behind it are not processed, and the duplicates are not handled.
\<close>

theorem digest_error_ends_pass:
  assumes "scan_files md5 directory custom_rules before Map.empty [] w =
             (Inr (hash_map, duplicates), w1)"
    and "os_makedirs
           (os_path_join directory (target_folder_name (lower (splitext_ext filename)) custom_rules))
           w1 = None"
    and "get_file_hash md5 (os_path_join root filename) w1 = Inl e"
  shows "organize_files md5 directory custom_rules (before @ (root, filename) # rest) typed w =
           (Some e, w1)"
  using assms
  by (simp add: organize_files_def scan_files_append scan_files.simps Let_def)

theorem digest_error_ends_pass_witness:
  "organize_files plain_digest ''d'' Map.empty
     [(''d'', ''b.txt''), (''d'', ''a.jpg''), (''d'', ''c.jpg'')] [''yes''] unreadable_world =
     (Some OSError,
      unreadable_world\<lparr>calls := [(''d/b.txt'', ''d/Documents/b.txt'')],
        files := [''d/a.jpg'' \<mapsto> ''AAA'', ''d/c.jpg'' \<mapsto> ''CCC'', ''d/Documents/b.txt'' \<mapsto> ''BBB''],
        log_file := Some (json_dump (Some 4) [(''d/b.txt'', ''d/Documents/b.txt'')])\<rparr>)"
proof -
  let ?w1 = "unreadable_world\<lparr>calls := [(''d/b.txt'', ''d/Documents/b.txt'')],
        files := [''d/a.jpg'' \<mapsto> ''AAA'', ''d/c.jpg'' \<mapsto> ''CCC'', ''d/Documents/b.txt'' \<mapsto> ''BBB''],
        log_file := Some (json_dump (Some 4) [(''d/b.txt'', ''d/Documents/b.txt'')])\<rparr>"
  have fm: "([''d/b.txt'' \<mapsto> ''BBB'', ''d/a.jpg'' \<mapsto> ''AAA'', ''d/c.jpg'' \<mapsto> ''CCC''])
      (''d/b.txt'' := None, ''d/Documents/b.txt'' \<mapsto> ''BBB'') =
      [''d/a.jpg'' \<mapsto> ''AAA'', ''d/c.jpg'' \<mapsto> ''CCC'', ''d/Documents/b.txt'' \<mapsto> ''BBB'']"
    by (rule ext) simp
  have ml: "move_and_log ''d/b.txt'' ''d/Documents/b.txt'' unreadable_world = ?w1"
  proof -
    have "move_and_log ''d/b.txt'' ''d/Documents/b.txt'' unreadable_world =
      unreadable_world\<lparr>calls := calls unreadable_world @ [(''d/b.txt'', ''d/Documents/b.txt'')],
        files := ((files unreadable_world)(''d/b.txt'' := None))(''d/Documents/b.txt'' \<mapsto> ''BBB''),
        log_file := Some (json_dump (Some 4) ([] @ [(''d/b.txt'', ''d/Documents/b.txt'')]))\<rparr>"
      by (rule move_and_log_ok) (simp_all add: unreadable_world_fields)
    then show ?thesis by (simp add: unreadable_world_fields fm)
  qed
  have "scan_files plain_digest ''d'' Map.empty [(''d'', ''b.txt'')] Map.empty [] unreadable_world =
      scan_files plain_digest ''d'' Map.empty [] [plain_digest ''BBB'' \<mapsto> ''d/b.txt''] []
        (move_and_log ''d/b.txt'' ''d/Documents/b.txt'' unreadable_world)"
    by (rule scan_step_moved [where target_folder = "''d/Documents''"])
       (simp_all add: example_paths os_makedirs_None unreadable_world_fields)
  then have before: "scan_files plain_digest ''d'' Map.empty [(''d'', ''b.txt'')] Map.empty []
      unreadable_world = (Inr ([plain_digest ''BBB'' \<mapsto> ''d/b.txt''], []), ?w1)"
    by (simp add: ml scan_files.simps)
  have mk: "os_makedirs
      (os_path_join ''d'' (target_folder_name (lower (splitext_ext ''a.jpg'')) Map.empty)) ?w1 = None"
    by (simp add: example_paths os_makedirs_None unreadable_world_fields)
  have h: "get_file_hash plain_digest (os_path_join ''d'' ''a.jpg'') ?w1 = Inl OSError"
    by (simp add: example_paths get_file_hash_def unreadable_world_fields)
  show ?thesis
    using digest_error_ends_pass [OF before mk h, of "[(''d'', ''c.jpg'')]" "[''yes'']"]
    by simp
qed

subsection \<open>Duplicate grouping\<close>




end
